theory Spec2Isabelle
  imports Main
begin

section \<open>AnimalGame: a shallow embedding of \<^verbatim>\<open>AnimalGame.py\<close>\<close>

text \<open>
  The program is a rules engine for a two-player game on a 7x7 grid. Squares are Python
  strings such as \<^verbatim>\<open>'a1'\<close>, used directly as dictionary keys; the board is a
  dictionary from such keys to a piece object or to \<^verbatim>\<open>None\<close>. Strings are
  modelled as \<^typ>\<open>string\<close>, Python integers as \<^typ>\<open>int\<close>, the dictionary as a
  map, and every exception the code can raise as a value of type \<open>error\<close>.
\<close>

subsection \<open>Exceptions and the Python primitives the code relies on\<close>

datatype error = ValueError | IndexError

text \<open>
  \<^verbatim>\<open>xs.index(x)\<close>: the position of the first occurrence, \<^verbatim>\<open>ValueError\<close> when
  there is none.
\<close>

fun list_index :: "'a list \<Rightarrow> 'a \<Rightarrow> error + int" where
  "list_index [] x = Inl ValueError"
| "list_index (y # ys) x =
     (if y = x then Inr 0
      else case list_index ys x of Inl e \<Rightarrow> Inl e | Inr i \<Rightarrow> Inr (i + 1))"

text \<open>
  \<^verbatim>\<open>xs[i]\<close> on a list or a string: an index in \<open>-len .. -1\<close> counts from the end,
  anything outside \<open>-len ..< len\<close> raises \<^verbatim>\<open>IndexError\<close>.
\<close>

definition getitem :: "'a list \<Rightarrow> int \<Rightarrow> error + 'a" where
  "getitem xs i =
     (if 0 \<le> i \<and> i < int (length xs) then Inr (xs ! nat i)
      else if - int (length xs) \<le> i \<and> i < 0 then Inr (xs ! nat (int (length xs) + i))
      else Inl IndexError)"

text \<open>
  \<^verbatim>\<open>int(c)\<close> for a string \<open>c\<close> of one character, the only way the program calls it
  (\<^verbatim>\<open>int(start[1])\<close>): the value of a decimal digit, \<^verbatim>\<open>ValueError\<close> for any other
  character. Characters are the 8-bit \<^typ>\<open>char\<close>, among which the decimal digits are
  exactly \<open>0\<close> to \<open>9\<close>.
\<close>

definition int_of_digit :: "char \<Rightarrow> error + int" where
  "int_of_digit c = list_index ''0123456789'' c"

text \<open>\<^verbatim>\<open>str(n)\<close> for an integer: decimal digits, with a leading minus sign below zero.\<close>

fun str_nat :: "nat \<Rightarrow> string" where
  "str_nat n =
     (if n < 10 then [''0123456789'' ! n]
      else str_nat (n div 10) @ [''0123456789'' ! (n mod 10)])"

declare str_nat.simps [simp del]

definition str :: "int \<Rightarrow> string" where
  "str i = (if i < 0 then CHR ''-'' # str_nat (nat (- i)) else str_nat (nat i))"

subsection \<open>Pieces\<close>

text \<open>
  The colour of a piece and the side to move are the strings \<^verbatim>\<open>'TANGERINE'\<close> and
  \<^verbatim>\<open>'AMETHYST'\<close>; the game state is one of \<^verbatim>\<open>'UNFINISHED'\<close>,
  \<^verbatim>\<open>'TANGERINE_WON'\<close>, \<^verbatim>\<open>'AMETHYST_WON'\<close>. A piece is an instance of one of the
  four subclasses of \<^verbatim>\<open>Piece\<close>, constructed with its colour. The game never creates
  an instance of the base class, whose \<^verbatim>\<open>valid_move\<close> only raises
  \<^verbatim>\<open>NotImplementedError\<close>; \<^verbatim>\<open>symbol\<close> and \<^verbatim>\<open>print_board\<close> render the board as
  text and change nothing, and are left out.
\<close>

datatype color = TANGERINE | AMETHYST

datatype game_state = UNFINISHED | TANGERINE_WON | AMETHYST_WON

datatype piece =
    Chinchilla (color: color)
  | Wombat (color: color)
  | Emu (color: color)
  | Cuttlefish (color: color)

text \<open>The dictionary \<^verbatim>\<open>_board\<close>: a key is absent, or maps to \<^verbatim>\<open>None\<close>, or to a piece.\<close>

type_synonym board = "string \<rightharpoonup> piece option"

text \<open>\<^verbatim>\<open>board.get(key)\<close>: \<^verbatim>\<open>None\<close> for an absent key as for a key stored as \<^verbatim>\<open>None\<close>.\<close>

definition board_get :: "board \<Rightarrow> string \<Rightarrow> piece option" where
  "board_get b key = (case b key of None \<Rightarrow> None | Some v \<Rightarrow> v)"

definition COLUMNS :: "char list" where
  "COLUMNS = ''abcdefg''"

text \<open>\<^verbatim>\<open>COLUMNS.index(sq[0])\<close> and \<^verbatim>\<open>int(sq[1])\<close>, each with the exceptions of its two steps.\<close>

definition column_of :: "string \<Rightarrow> error + int" where
  "column_of sq =
     (case getitem sq 0 of Inl e \<Rightarrow> Inl e | Inr c \<Rightarrow> list_index COLUMNS c)"

definition row_of :: "string \<Rightarrow> error + int" where
  "row_of sq =
     (case getitem sq 1 of Inl e \<Rightarrow> Inl e | Inr c \<Rightarrow> int_of_digit c)"

text \<open>
  The first two lines of every \<^verbatim>\<open>valid_move\<close>:
  \<^verbatim>\<open>dx = abs(COLUMNS.index(start[0]) - COLUMNS.index(end[0]))\<close> and
  \<^verbatim>\<open>dy = abs(int(start[1]) - int(end[1]))\<close>, evaluated left to right.
\<close>

definition abs_deltas :: "string \<Rightarrow> string \<Rightarrow> error + int \<times> int" where
  "abs_deltas start end_sq =
     (case column_of start of Inl e \<Rightarrow> Inl e | Inr cs \<Rightarrow>
      case column_of end_sq of Inl e \<Rightarrow> Inl e | Inr ce \<Rightarrow>
      case row_of start of Inl e \<Rightarrow> Inl e | Inr rs \<Rightarrow>
      case row_of end_sq of Inl e \<Rightarrow> Inl e | Inr re \<Rightarrow>
        Inr (\<bar>cs - ce\<bar>, \<bar>rs - re\<bar>))"

definition Chinchilla_valid_move :: "string \<Rightarrow> string \<Rightarrow> board \<Rightarrow> error + bool" where
  "Chinchilla_valid_move start end_sq b =
     (case abs_deltas start end_sq of Inl e \<Rightarrow> Inl e
      | Inr (dx, dy) \<Rightarrow> Inr (max dx dy = 1))"

definition Wombat_valid_move :: "string \<Rightarrow> string \<Rightarrow> board \<Rightarrow> error + bool" where
  "Wombat_valid_move start end_sq b =
     (case abs_deltas start end_sq of Inl e \<Rightarrow> Inl e
      | Inr (dx, dy) \<Rightarrow>
          let abs_dx = \<bar>dx\<bar>; abs_dy = \<bar>dy\<bar>
          in Inr ((abs_dx = 4 \<and> dy = 0) \<or> (abs_dy = 4 \<and> dx = 0) \<or> (abs_dx = 1 \<and> abs_dy = 1)))"

definition Emu_valid_move :: "string \<Rightarrow> string \<Rightarrow> board \<Rightarrow> error + bool" where
  "Emu_valid_move start end_sq b =
     (case abs_deltas start end_sq of Inl e \<Rightarrow> Inl e
      | Inr (dx, dy) \<Rightarrow>
          if dx = 0 \<and> 1 \<le> dy \<and> dy \<le> 3 then Inr True
          else if dy = 0 \<and> 1 \<le> dx \<and> dx \<le> 3 then Inr True
          else if dx = 1 \<and> dy = 1 then Inr True
          else Inr False)"

definition Cuttlefish_valid_move :: "string \<Rightarrow> string \<Rightarrow> board \<Rightarrow> error + bool" where
  "Cuttlefish_valid_move start end_sq b =
     (case abs_deltas start end_sq of Inl e \<Rightarrow> Inl e
      | Inr (dx, dy) \<Rightarrow> Inr ((dx = 2 \<and> dy = 2) \<or> (dx = 1 \<and> dy = 0) \<or> (dx = 0 \<and> dy = 1)))"

text \<open>\<^verbatim>\<open>piece.valid_move(start, end, board)\<close>: the method of the piece's class.\<close>

fun valid_move :: "piece \<Rightarrow> string \<Rightarrow> string \<Rightarrow> board \<Rightarrow> error + bool" where
  "valid_move (Chinchilla c) start end_sq b = Chinchilla_valid_move start end_sq b"
| "valid_move (Wombat c) start end_sq b = Wombat_valid_move start end_sq b"
| "valid_move (Emu c) start end_sq b = Emu_valid_move start end_sq b"
| "valid_move (Cuttlefish c) start end_sq b = Cuttlefish_valid_move start end_sq b"

subsection \<open>The game controller\<close>

record AnimalGame =
  board :: board
  game_state :: game_state
  turn :: color

definition create_piece :: "string \<Rightarrow> color \<Rightarrow> piece option" where
  "create_piece name col =
     (if name = ''chinchilla'' then Some (Chinchilla col)
      else if name = ''wombat'' then Some (Wombat col)
      else if name = ''emu'' then Some (Emu col)
      else if name = ''cuttlefish'' then Some (Cuttlefish col)
      else None)"

definition row_order :: "string list" where
  "row_order = [''chinchilla'', ''wombat'', ''emu'', ''cuttlefish'', ''emu'', ''wombat'', ''chinchilla'']"

text \<open>
  \<^verbatim>\<open>_place_initial_pieces\<close>: the loop over \<^verbatim>\<open>enumerate(row_order)\<close>. The index stays
  below 7, the length of \<^verbatim>\<open>COLUMNS\<close>, so \<^verbatim>\<open>COLUMNS[index]\<close> cannot raise.
\<close>

definition place_initial_pieces :: "board \<Rightarrow> board" where
  "place_initial_pieces b =
     fold (\<lambda>(index, name) b.
             (b((COLUMNS ! index) # ''1'' \<mapsto> create_piece name TANGERINE))
               ((COLUMNS ! index) # ''7'' \<mapsto> create_piece name AMETHYST))
          (enumerate 0 row_order) b"

text \<open>\<^verbatim>\<open>AnimalGame()\<close>: the state after \<^verbatim>\<open>__init__\<close>.\<close>

definition AnimalGame_init :: AnimalGame where
  "AnimalGame_init =
     \<lparr>board = place_initial_pieces Map.empty, game_state = UNFINISHED, turn = TANGERINE\<rparr>"

definition get_game_state :: "AnimalGame \<Rightarrow> game_state" where
  "get_game_state self = game_state self"

text \<open>
  The \<^verbatim>\<open>while\<close> loop of \<^verbatim>\<open>_path_clear\<close>. Nothing in the loop itself bounds the number
  of rounds, so the function is partial: \<open>None\<close> stands for a loop that runs forever,
  \<open>Some (Inl e)\<close> for an exception, \<open>Some (Inr r)\<close> for the value returned.
\<close>

partial_function (option) path_clear_loop ::
  "board \<Rightarrow> int \<Rightarrow> int \<Rightarrow> int \<Rightarrow> int \<Rightarrow> int \<Rightarrow> int \<Rightarrow> (error + bool) option" where
  "path_clear_loop b column row step_column step_row column_end row_end =
     (if column \<noteq> column_end \<or> row \<noteq> row_end then
        (case getitem COLUMNS column of
           Inl e \<Rightarrow> Some (Inl e)
         | Inr c \<Rightarrow>
             if board_get b (c # str row) \<noteq> None then Some (Inr False)
             else path_clear_loop b (column + step_column) (row + step_row)
                    step_column step_row column_end row_end)
      else Some (Inr True))"

declare path_clear_loop.simps [code]

definition path_clear :: "board \<Rightarrow> string \<Rightarrow> string \<Rightarrow> (error + bool) option" where
  "path_clear b start end_sq =
     (case column_of start of Inl e \<Rightarrow> Some (Inl e) | Inr column_start \<Rightarrow>
      case row_of start of Inl e \<Rightarrow> Some (Inl e) | Inr row_start \<Rightarrow>
      case column_of end_sq of Inl e \<Rightarrow> Some (Inl e) | Inr column_end \<Rightarrow>
      case row_of end_sq of Inl e \<Rightarrow> Some (Inl e) | Inr row_end \<Rightarrow>
        let dx = column_end - column_start;
            dy = row_end - row_start;
            step_column = (if dx = 0 then 0 else if dx > 0 then 1 else - 1);
            step_row = (if dy = 0 then 0 else if dy > 0 then 1 else - 1)
        in path_clear_loop b (column_start + step_column) (row_start + step_row)
             step_column step_row column_end row_end)"

text \<open>
  \<^verbatim>\<open>make_move\<close>. The result pairs what the call does (\<open>Inr\<close> the boolean returned,
  \<open>Inl\<close> the exception raised) with the state of the object afterwards; \<open>None\<close> is a
  call that never returns.
\<close>

definition make_move ::
  "AnimalGame \<Rightarrow> string \<Rightarrow> string \<Rightarrow> ((error + bool) \<times> AnimalGame) option" where
  "make_move self start end_sq =
     (if game_state self \<noteq> UNFINISHED then Some (Inr False, self)
      else case board self start of
        None \<Rightarrow> Some (Inr False, self)
      | Some None \<Rightarrow> Some (Inr False, self)
      | Some (Some piece) \<Rightarrow>
          if color piece \<noteq> turn self then Some (Inr False, self)
          else case valid_move piece start end_sq (board self) of
            Inl e \<Rightarrow> Some (Inl e, self)
          | Inr ok \<Rightarrow>
              if \<not> ok then Some (Inr False, self)
              else
                let target = board_get (board self) end_sq in
                if (case target of None \<Rightarrow> False | Some t \<Rightarrow> color t = turn self)
                then Some (Inr False, self)
                else case (if is_Emu piece \<or> is_Chinchilla piece
                           then path_clear (board self) start end_sq
                           else Some (Inr True)) of
                  None \<Rightarrow> None
                | Some (Inl e) \<Rightarrow> Some (Inl e, self)
                | Some (Inr clear) \<Rightarrow>
                    if \<not> clear then Some (Inr False, self)
                    else Some (Inr True,
                      \<lparr>board = (board self)(end_sq \<mapsto> Some piece, start \<mapsto> None),
                       game_state =
                         (case target of
                            Some (Cuttlefish c) \<Rightarrow>
                              if c = AMETHYST then TANGERINE_WON else AMETHYST_WON
                          | _ \<Rightarrow> game_state self),
                       turn = (if turn self = TANGERINE then AMETHYST else TANGERINE)\<rparr>))"

subsection \<open>Callers\<close>

text \<open>
  A caller that makes one call after another on the same object, as the unit tests do:
  each call sees the state the one before left. The results are collected in order; a
  call that raises leaves its exception in the list, and the caller carries on.
\<close>

fun make_moves ::
  "AnimalGame \<Rightarrow> (string \<times> string) list \<Rightarrow> ((error + bool) list \<times> AnimalGame) option" where
  "make_moves self [] = Some ([], self)"
| "make_moves self ((start, end_sq) # calls) =
     (case make_move self start end_sq of
        None \<Rightarrow> None
      | Some (r, self') \<Rightarrow>
          (case make_moves self' calls of
             None \<Rightarrow> None
           | Some (rs, self'') \<Rightarrow> Some (r # rs, self'')))"

subsection \<open>The vocabulary of the specification\<close>

text \<open>
  A well-formed coordinate: a column letter \<open>a\<close> to \<open>g\<close> followed by a row digit \<open>1\<close>
  to \<open>7\<close>, and nothing else.
\<close>

definition well_formed :: "string \<Rightarrow> bool" where
  "well_formed sq =
     (case sq of [c, r] \<Rightarrow> c \<in> set ''abcdefg'' \<and> r \<in> set ''1234567'' | _ \<Rightarrow> False)"

definition well_formed_calls :: "(string \<times> string) list \<Rightarrow> bool" where
  "well_formed_calls calls = list_all (\<lambda>(start, end_sq). well_formed start \<and> well_formed end_sq) calls"

text \<open>
  The squares strictly between two squares along the straight line connecting them,
  endpoints excluded, in unit steps from the start: written from the specification's
  words, not from the loop. Two squares that share neither a row, a column nor a diagonal
  have no connecting line and nothing between them.
\<close>

definition squares_between :: "string \<Rightarrow> string \<Rightarrow> string list" where
  "squares_between start end_sq =
     (case (column_of start, row_of start, column_of end_sq, row_of end_sq) of
        (Inr c1, Inr r1, Inr c2, Inr r2) \<Rightarrow>
          if c1 = c2 \<or> r1 = r2 \<or> \<bar>c2 - c1\<bar> = \<bar>r2 - r1\<bar> then
            map (\<lambda>k. [COLUMNS ! nat (c1 + int k * sgn (c2 - c1)),
                      ''0123456789'' ! nat (r1 + int k * sgn (r2 - r1))])
                [1 ..< nat (max \<bar>c2 - c1\<bar> \<bar>r2 - r1\<bar>)]
          else []
      | _ \<Rightarrow> [])"

section \<open>Properties\<close>

subsection \<open>Parsing a square\<close>

lemma list_index_Inr:
  "list_index xs x = Inr i \<Longrightarrow> 0 \<le> i \<and> i < int (length xs) \<and> xs ! nat i = x"
proof (induction xs arbitrary: i)
  case Nil
  then show ?case by simp
next
  case (Cons y ys)
  show ?case
  proof (cases "y = x")
    case True
    with Cons.prems show ?thesis by simp
  next
    case False
    with Cons.prems obtain j where j: "list_index ys x = Inr j" "i = j + 1"
      by (auto split: sum.splits)
    from Cons.IH [OF j(1)] have "0 \<le> j" "j < int (length ys)" "ys ! nat j = x" by auto
    with j(2) show ?thesis by (simp add: nat_add_distrib)
  qed
qed

lemma list_index_Inl: "list_index xs x = Inl e \<Longrightarrow> e = ValueError \<and> x \<notin> set xs"
  by (induction xs) (auto split: if_splits sum.splits)

lemma column_of_Inr:
  "column_of sq = Inr c \<Longrightarrow> 0 \<le> c \<and> c < 7 \<and> sq \<noteq> [] \<and> COLUMNS ! nat c = hd sq"
  unfolding column_of_def getitem_def
  by (cases sq) (auto split: if_splits dest!: list_index_Inr simp: COLUMNS_def)

lemma row_of_Inr:
  "row_of sq = Inr r \<Longrightarrow> 0 \<le> r \<and> r < 10 \<and> 2 \<le> length sq \<and> ''0123456789'' ! nat r = sq ! 1"
  unfolding row_of_def getitem_def int_of_digit_def
  by (auto split: if_splits dest!: list_index_Inr)

lemma str_digit: "0 \<le> r \<Longrightarrow> r < 10 \<Longrightarrow> str r = [''0123456789'' ! nat r]"
  by (simp add: str_def str_nat.simps)


lemma getitem_COLUMNS: "0 \<le> c \<Longrightarrow> c < 7 \<Longrightarrow> getitem COLUMNS c = Inr (COLUMNS ! nat c)"
  by (simp add: getitem_def COLUMNS_def)

lemma all_less_Suc_shift: "(\<forall>k<Suc n. P k) \<longleftrightarrow> P 0 \<and> (\<forall>k<n. P (Suc k))"
  by (metis less_Suc_eq_0_disj)

lemma path_clear_loop_walk:
  assumes "sc \<noteq> 0 \<or> sr \<noteq> 0"
    and "\<forall>k<n. 0 \<le> column + int k * sc \<and> column + int k * sc < 7"
  shows "path_clear_loop b column row sc sr (column + int n * sc) (row + int n * sr) =
    Some (Inr (\<forall>k<n. board_get b (COLUMNS ! nat (column + int k * sc) # str (row + int k * sr)) = None))"
  using assms(2)
proof (induction n arbitrary: column row)
  case 0
  show ?case by (subst path_clear_loop.simps) simp
next
  case (Suc n)
  from Suc.prems have c0: "0 \<le> column" "column < 7" by auto
  have far: "column \<noteq> column + int (Suc n) * sc \<or> row \<noteq> row + int (Suc n) * sr"
    using assms(1) by auto
  have shift: "\<forall>k<n. 0 \<le> (column + sc) + int k * sc \<and> (column + sc) + int k * sc < 7"
  proof (intro allI impI)
    fix k assume "k < n"
    then have "Suc k < Suc n" by simp
    with Suc.prems have "0 \<le> column + int (Suc k) * sc \<and> column + int (Suc k) * sc < 7" by blast
    then show "0 \<le> (column + sc) + int k * sc \<and> (column + sc) + int k * sc < 7"
      by (simp add: algebra_simps)
  qed
  have ends: "column + int (Suc n) * sc = (column + sc) + int n * sc"
    "row + int (Suc n) * sr = (row + sr) + int n * sr"
    by (simp_all add: algebra_simps)
  have idx: "\<And>k. column + sc + int k * sc = column + int (Suc k) * sc"
    "\<And>k. row + sr + int k * sr = row + int (Suc k) * sr"
    by (simp_all add: algebra_simps)
  show ?case
  proof (cases "board_get b (COLUMNS ! nat column # str row) = None")
    case False
    then have "\<not> (\<forall>k<Suc n. board_get b (COLUMNS ! nat (column + int k * sc) # str (row + int k * sr)) = None)"
      by (auto intro: exI [of _ 0])
    moreover have "path_clear_loop b column row sc sr (column + int (Suc n) * sc) (row + int (Suc n) * sr)
        = Some (Inr False)"
      using far False by (subst path_clear_loop.simps) (simp add: getitem_COLUMNS c0)
    ultimately show ?thesis by simp
  next
    case True
    have "path_clear_loop b column row sc sr (column + int (Suc n) * sc) (row + int (Suc n) * sr)
        = path_clear_loop b column row sc sr ((column + sc) + int n * sc) ((row + sr) + int n * sr)"
      by (simp only: ends)
    also have "\<dots> = path_clear_loop b (column + sc) (row + sr) sc sr ((column + sc) + int n * sc) ((row + sr) + int n * sr)"
      using far [unfolded ends] True by (subst path_clear_loop.simps) (simp add: getitem_COLUMNS c0)
    also have "\<dots> = Some (Inr (\<forall>k<n. board_get b (COLUMNS ! nat ((column + sc) + int k * sc) # str ((row + sr) + int k * sr)) = None))"
      by (rule Suc.IH [OF shift])
    also have "(\<forall>k<n. board_get b (COLUMNS ! nat ((column + sc) + int k * sc) # str ((row + sr) + int k * sr)) = None)
        \<longleftrightarrow> (\<forall>k<Suc n. board_get b (COLUMNS ! nat (column + int k * sc) # str (row + int k * sr)) = None)"
      unfolding idx
      using True all_less_Suc_shift [of n "\<lambda>k. board_get b (COLUMNS ! nat (column + int k * sc) # str (row + int k * sr)) = None"]
      by simp
    finally show ?thesis .
  qed
qed


lemma unit_step_bounds:
  fixes c :: int
  assumes "s = 0 \<or> s = 1 \<or> s = - 1" "lo \<le> c" "c < hi" "lo \<le> c + int n * s" "c + int n * s < hi" "k \<le> n"
  shows "lo \<le> c + int k * s \<and> c + int k * s < hi"
  using assms by auto

lemma path_clear_loop_segment:
  assumes steps: "sc = 0 \<or> sc = 1 \<or> sc = - 1" "sr = 0 \<or> sr = 1 \<or> sr = - 1" "sc \<noteq> 0 \<or> sr \<noteq> 0"
    and n: "0 < n"
    and ends: "c2 = c1 + int n * sc" "r2 = r1 + int n * sr"
    and cols: "0 \<le> c1" "c1 < 7" "0 \<le> c2" "c2 < 7"
    and rows: "0 \<le> r1" "r1 < 10" "0 \<le> r2" "r2 < 10"
  shows "path_clear_loop b (c1 + sc) (r1 + sr) sc sr c2 r2 =
    Some (Inr (\<forall>k\<in>{1..<n}. board_get b [COLUMNS ! nat (c1 + int k * sc),
                                          ''0123456789'' ! nat (r1 + int k * sr)] = None))"
proof -
  obtain m where m: "n = Suc m" using n by (cases n) auto
  have cb: "0 \<le> c1 + int k * sc \<and> c1 + int k * sc < 7" if "k \<le> n" for k
    using unit_step_bounds [OF steps(1) cols(1,2) cols(3,4) [unfolded ends] that] .
  have rb: "0 \<le> r1 + int k * sr \<and> r1 + int k * sr < 10" if "k \<le> n" for k
    using unit_step_bounds [OF steps(2) rows(1,2) rows(3,4) [unfolded ends] that] .
  have idx: "c1 + sc + int k * sc = c1 + int (Suc k) * sc" "r1 + sr + int k * sr = r1 + int (Suc k) * sr" for k
    by (simp_all add: algebra_simps)
  have inrange: "\<forall>k<m. 0 \<le> (c1 + sc) + int k * sc \<and> (c1 + sc) + int k * sc < 7"
  proof (intro allI impI)
    fix k assume "k < m"
    then have "Suc k \<le> n" using m by simp
    from cb [OF this] show "0 \<le> (c1 + sc) + int k * sc \<and> (c1 + sc) + int k * sc < 7"
      unfolding idx .
  qed
  have e: "c2 = (c1 + sc) + int m * sc" "r2 = (r1 + sr) + int m * sr"
    using ends m by (simp_all add: algebra_simps)
  have "path_clear_loop b (c1 + sc) (r1 + sr) sc sr c2 r2 =
      Some (Inr (\<forall>k<m. board_get b (COLUMNS ! nat ((c1 + sc) + int k * sc) # str ((r1 + sr) + int k * sr)) = None))"
    unfolding e by (rule path_clear_loop_walk [OF steps(3) inrange])
  also have "(\<forall>k<m. board_get b (COLUMNS ! nat ((c1 + sc) + int k * sc) # str ((r1 + sr) + int k * sr)) = None)
      \<longleftrightarrow> (\<forall>k\<in>{1..<n}. board_get b [COLUMNS ! nat (c1 + int k * sc), ''0123456789'' ! nat (r1 + int k * sr)] = None)"
    (is "?L \<longleftrightarrow> ?R")
  proof
    assume L: ?L
    show ?R
    proof
      fix k assume "k \<in> {1..<n}"
      then obtain j where j: "k = Suc j" "j < m" using m by (cases k) auto
      from rb [of k] j m have strk: "str (r1 + int (Suc j) * sr) = [''0123456789'' ! nat (r1 + int (Suc j) * sr)]"
        by (intro str_digit) auto
      from L j(2) have "board_get b (COLUMNS ! nat ((c1 + sc) + int j * sc) # str ((r1 + sr) + int j * sr)) = None"
        by blast
      then show "board_get b [COLUMNS ! nat (c1 + int k * sc), ''0123456789'' ! nat (r1 + int k * sr)] = None"
        unfolding idx strk j(1) .
    qed
  next
    assume R: ?R
    show ?L
    proof (intro allI impI)
      fix k assume "k < m"
      then have k: "Suc k \<in> {1..<n}" using m by simp
      from rb [of "Suc k"] k have strk: "str (r1 + int (Suc k) * sr) = [''0123456789'' ! nat (r1 + int (Suc k) * sr)]"
        by (intro str_digit) auto
      from R k have "board_get b [COLUMNS ! nat (c1 + int (Suc k) * sc),
          ''0123456789'' ! nat (r1 + int (Suc k) * sr)] = None"
        by (rule bspec)
      then show "board_get b (COLUMNS ! nat ((c1 + sc) + int k * sc) # str ((r1 + sr) + int k * sr)) = None"
        unfolding idx strk .
    qed
  qed
  finally show ?thesis .
qed


lemma straight_end:
  fixes d d' :: int
  assumes "d = 0 \<or> d' = 0 \<or> \<bar>d\<bar> = \<bar>d'\<bar>"
  shows "int (nat (max \<bar>d\<bar> \<bar>d'\<bar>)) * sgn d = d"
proof (cases "d = 0")
  case True
  then show ?thesis by simp
next
  case False
  with assms have "max \<bar>d\<bar> \<bar>d'\<bar> = \<bar>d\<bar>" by auto
  then show ?thesis by (simp add: sgn_if)
qed

lemma path_clear_straight:
  assumes p: "column_of s = Inr c1" "row_of s = Inr r1" "column_of e = Inr c2" "row_of e = Inr r2"
    and straight: "c1 = c2 \<or> r1 = r2 \<or> \<bar>c2 - c1\<bar> = \<bar>r2 - r1\<bar>"
  shows "path_clear b s e = Some (Inr (\<forall>sq\<in>set (squares_between s e). board_get b sq = None))"
proof -
  define n where "n = nat (max \<bar>c2 - c1\<bar> \<bar>r2 - r1\<bar>)"
  define sc where "sc = sgn (c2 - c1)"
  define sr where "sr = sgn (r2 - r1)"
  have pc: "path_clear b s e = path_clear_loop b (c1 + sc) (r1 + sr) sc sr c2 r2"
    by (simp add: path_clear_def p Let_def sc_def sr_def sgn_if)
  have sb: "squares_between s e =
      map (\<lambda>k. [COLUMNS ! nat (c1 + int k * sc), ''0123456789'' ! nat (r1 + int k * sr)]) [1..<n]"
    using straight by (simp add: squares_between_def p n_def sc_def sr_def)
  have st: "c2 - c1 = 0 \<or> r2 - r1 = 0 \<or> \<bar>c2 - c1\<bar> = \<bar>r2 - r1\<bar>"
    using straight by auto
  have st': "r2 - r1 = 0 \<or> c2 - c1 = 0 \<or> \<bar>r2 - r1\<bar> = \<bar>c2 - c1\<bar>"
    using straight by auto
  have ends: "c2 = c1 + int n * sc" "r2 = r1 + int n * sr"
    using straight_end [OF st] straight_end [OF st'] 
    by (simp_all add: n_def sc_def sr_def max.commute)
  show ?thesis
  proof (cases "n = 0")
    case True
    then have "c2 = c1" "r2 = r1" using ends by simp_all
    then have "sc = 0" "sr = 0" "c1 + sc = c2" "r1 + sr = r2"
      by (simp_all add: sc_def sr_def)
    then have "path_clear b s e = Some (Inr True)"
      unfolding pc by (subst path_clear_loop.simps) simp
    with True sb show ?thesis by simp
  next
    case False
    then have n: "0 < n" by simp
    have nz: "sc \<noteq> 0 \<or> sr \<noteq> 0"
      using n by (auto simp: n_def sc_def sr_def sgn_if)
    have steps: "sc = 0 \<or> sc = 1 \<or> sc = - 1" "sr = 0 \<or> sr = 1 \<or> sr = - 1"
      by (auto simp: sc_def sr_def sgn_if)
    from column_of_Inr [OF p(1)] column_of_Inr [OF p(3)]
    have cols: "0 \<le> c1" "c1 < 7" "0 \<le> c2" "c2 < 7" by auto
    from row_of_Inr [OF p(2)] row_of_Inr [OF p(4)]
    have rows: "0 \<le> r1" "r1 < 10" "0 \<le> r2" "r2 < 10" by auto
    show ?thesis
      unfolding pc sb
      by (subst path_clear_loop_segment [OF steps nz n ends cols rows]) simp
  qed
qed


lemma abs_deltas_Inr:
  assumes "abs_deltas s e = Inr (dx, dy)"
  obtains c1 r1 c2 r2 where "column_of s = Inr c1" "row_of s = Inr r1"
    "column_of e = Inr c2" "row_of e = Inr r2" "dx = \<bar>c1 - c2\<bar>" "dy = \<bar>r1 - r2\<bar>"
  using assms unfolding abs_deltas_def by (auto split: sum.splits)

lemma sliding_accept_straight:
  assumes "is_Emu p \<or> is_Chinchilla p" "valid_move p s e b = Inr True"
  obtains c1 r1 c2 r2 where "column_of s = Inr c1" "row_of s = Inr r1"
    "column_of e = Inr c2" "row_of e = Inr r2"
    "c1 = c2 \<or> r1 = r2 \<or> \<bar>c2 - c1\<bar> = \<bar>r2 - r1\<bar>"
proof -
  from assms obtain dx dy where d: "abs_deltas s e = Inr (dx, dy)"
    and shape: "max dx dy = 1 \<or> dx = 0 \<or> dy = 0 \<or> dx = dy"
    by (cases p)
       (auto simp: Emu_valid_move_def Chinchilla_valid_move_def split: sum.splits if_splits)
  from d obtain c1 r1 c2 r2 where p: "column_of s = Inr c1" "row_of s = Inr r1"
    "column_of e = Inr c2" "row_of e = Inr r2" "dx = \<bar>c1 - c2\<bar>" "dy = \<bar>r1 - r2\<bar>"
    by (rule abs_deltas_Inr)
  from shape p(5,6) have "c1 = c2 \<or> r1 = r2 \<or> \<bar>c2 - c1\<bar> = \<bar>r2 - r1\<bar>" by auto
  with p(1-4) show thesis by (rule that)
qed

lemma sliding_path_clear:
  assumes "is_Emu p \<or> is_Chinchilla p" "valid_move p s e b = Inr True"
  shows "path_clear b' s e = Some (Inr (\<forall>sq\<in>set (squares_between s e). board_get b' sq = None))"
proof -
  from assms obtain c1 r1 c2 r2 where "column_of s = Inr c1" "row_of s = Inr r1"
    "column_of e = Inr c2" "row_of e = Inr r2"
    "c1 = c2 \<or> r1 = r2 \<or> \<bar>c2 - c1\<bar> = \<bar>r2 - r1\<bar>"
    by (rule sliding_accept_straight)
  then show ?thesis by (rule path_clear_straight)
qed

lemma make_move_unfold:
  "make_move g s e =
     (if game_state g \<noteq> UNFINISHED then Some (Inr False, g)
      else case board g s of
        None \<Rightarrow> Some (Inr False, g)
      | Some None \<Rightarrow> Some (Inr False, g)
      | Some (Some p) \<Rightarrow>
          if color p \<noteq> turn g then Some (Inr False, g)
          else case valid_move p s e (board g) of
            Inl err \<Rightarrow> Some (Inl err, g)
          | Inr ok \<Rightarrow>
              if \<not> ok then Some (Inr False, g)
              else if (case board_get (board g) e of None \<Rightarrow> False | Some t \<Rightarrow> color t = turn g)
              then Some (Inr False, g)
              else if (is_Emu p \<or> is_Chinchilla p) \<and>
                      (\<exists>sq\<in>set (squares_between s e). board_get (board g) sq \<noteq> None)
              then Some (Inr False, g)
              else Some (Inr True,
                \<lparr>board = (board g)(e \<mapsto> Some p, s \<mapsto> None),
                 game_state =
                   (case board_get (board g) e of
                      Some (Cuttlefish c) \<Rightarrow> if c = AMETHYST then TANGERINE_WON else AMETHYST_WON
                    | _ \<Rightarrow> game_state g),
                 turn = (if turn g = TANGERINE then AMETHYST else TANGERINE)\<rparr>))"
proof (cases "board g s")
  case None
  then show ?thesis by (simp add: make_move_def)
next
  case (Some v)
  show ?thesis
  proof (cases v)
    case None
    with Some show ?thesis by (simp add: make_move_def)
  next
    case p: (Some p)
    show ?thesis
    proof (cases "valid_move p s e (board g)")
      case (Inl err)
      with Some p show ?thesis by (simp add: make_move_def)
    next
      case (Inr ok)
      show ?thesis
      proof (cases "ok \<and> (is_Emu p \<or> is_Chinchilla p)")
        case True
        with Inr have "path_clear (board g) s e =
            Some (Inr (\<forall>sq\<in>set (squares_between s e). board_get (board g) sq = None))"
          by (intro sliding_path_clear [of p s e "board g"]) auto
        with Some p Inr True show ?thesis by (simp add: make_move_def Let_def)
      next
        case False
        with Some p Inr show ?thesis by (auto simp add: make_move_def Let_def)
      qed
    qed
  qed
qed

subsection \<open>The new game\<close>

lemma board_init:
  "board AnimalGame_init =
     [''a1'' \<mapsto> Some (Chinchilla TANGERINE), ''a7'' \<mapsto> Some (Chinchilla AMETHYST),
      ''b1'' \<mapsto> Some (Wombat TANGERINE), ''b7'' \<mapsto> Some (Wombat AMETHYST),
      ''c1'' \<mapsto> Some (Emu TANGERINE), ''c7'' \<mapsto> Some (Emu AMETHYST),
      ''d1'' \<mapsto> Some (Cuttlefish TANGERINE), ''d7'' \<mapsto> Some (Cuttlefish AMETHYST),
      ''e1'' \<mapsto> Some (Emu TANGERINE), ''e7'' \<mapsto> Some (Emu AMETHYST),
      ''f1'' \<mapsto> Some (Wombat TANGERINE), ''f7'' \<mapsto> Some (Wombat AMETHYST),
      ''g1'' \<mapsto> Some (Chinchilla TANGERINE), ''g7'' \<mapsto> Some (Chinchilla AMETHYST)]"
  by (simp add: AnimalGame_init_def place_initial_pieces_def row_order_def COLUMNS_def
      create_piece_def enumerate_eq_zip upt_rec)


text \<open>
  Claim C5. A newly constructed game is \<open>UNFINISHED\<close> with \<open>TANGERINE\<close> to move; row 1
  holds, on columns \<open>a\<close> to \<open>g\<close>, TANGERINE's Chinchilla, Wombat, Emu, Cuttlefish, Emu,
  Wombat, Chinchilla; row 7 holds AMETHYST's pieces in the same left-to-right order; and
  the dictionary has no other key, so every other square is unoccupied.
\<close>

theorem new_game:
  "game_state AnimalGame_init = UNFINISHED \<and>
   turn AnimalGame_init = TANGERINE \<and>
   map (\<lambda>c. board AnimalGame_init [c, CHR ''1'']) ''abcdefg'' =
     map (\<lambda>p. Some (Some p))
       [Chinchilla TANGERINE, Wombat TANGERINE, Emu TANGERINE, Cuttlefish TANGERINE,
        Emu TANGERINE, Wombat TANGERINE, Chinchilla TANGERINE] \<and>
   map (\<lambda>c. board AnimalGame_init [c, CHR ''7'']) ''abcdefg'' =
     map (\<lambda>p. Some (Some p))
       [Chinchilla AMETHYST, Wombat AMETHYST, Emu AMETHYST, Cuttlefish AMETHYST,
        Emu AMETHYST, Wombat AMETHYST, Chinchilla AMETHYST] \<and>
   dom (board AnimalGame_init) =
     {''a1'', ''b1'', ''c1'', ''d1'', ''e1'', ''f1'', ''g1'',
      ''a7'', ''b7'', ''c7'', ''d7'', ''e7'', ''f7'', ''g7''}"
proof -
  have "dom (board AnimalGame_init) =
     {''a1'', ''b1'', ''c1'', ''d1'', ''e1'', ''f1'', ''g1'',
      ''a7'', ''b7'', ''c7'', ''d7'', ''e7'', ''f7'', ''g7''}"
    unfolding board_init by auto
  moreover have "map (\<lambda>c. board AnimalGame_init [c, CHR ''1'']) ''abcdefg'' =
     map (\<lambda>p. Some (Some p))
       [Chinchilla TANGERINE, Wombat TANGERINE, Emu TANGERINE, Cuttlefish TANGERINE,
        Emu TANGERINE, Wombat TANGERINE, Chinchilla TANGERINE]"
    unfolding board_init by simp
  moreover have "map (\<lambda>c. board AnimalGame_init [c, CHR ''7'']) ''abcdefg'' =
     map (\<lambda>p. Some (Some p))
       [Chinchilla AMETHYST, Wombat AMETHYST, Emu AMETHYST, Cuttlefish AMETHYST,
        Emu AMETHYST, Wombat AMETHYST, Chinchilla AMETHYST]"
    unfolding board_init by simp
  ultimately show ?thesis by (simp add: AnimalGame_init_def)
qed

subsection \<open>A destination off the board\<close>

lemma make_move_a1_a0_eval:
  "map_option (\<lambda>(r, g'). (r, board g' ''a0'', board g' ''a1'', turn g', game_state g'))
     (make_move AnimalGame_init ''a1'' ''a0'') =
   Some (Inr True, Some (Some (Chinchilla TANGERINE)), Some None, AMETHYST, UNFINISHED)"
  by code_simp


text \<open>
  Claim C9. The row of the destination is not checked against the range 1 to 7: on a new
  game \<^verbatim>\<open>make_move('a1', 'a0')\<close> returns \<open>True\<close>, the key \<^verbatim>\<open>'a0'\<close> (which is not a
  well-formed square) then holds TANGERINE's Chinchilla, \<^verbatim>\<open>'a1'\<close> is emptied, and the
  turn passes to AMETHYST.
\<close>

theorem make_move_accepts_row_zero:
  "\<exists>g'. make_move AnimalGame_init ''a1'' ''a0'' = Some (Inr True, g') \<and>
        board g' ''a0'' = Some (Some (Chinchilla TANGERINE)) \<and>
        board g' ''a1'' = Some None \<and>
        board_get (board g') ''a1'' = None \<and>
        turn g' = AMETHYST \<and>
        \<not> well_formed ''a0''"
proof -
  have "\<not> well_formed ''a0''" by (simp add: well_formed_def)
  with make_move_a1_a0_eval show ?thesis by (auto simp: board_get_def)
qed

subsection \<open>What a call to \<^verbatim>\<open>make_move\<close> does\<close>

text \<open>
  Every call returns or raises, a call that does not return \<open>True\<close> leaves the object
  as it was, and a call that returns \<open>True\<close> has passed every check.
\<close>

lemma make_move_total: "\<exists>r g'. make_move g s e = Some (r, g')"
  unfolding make_move_unfold by (simp split: option.split sum.split)

lemma make_move_rejected:
  assumes "make_move g s e = Some (r, g')" "r \<noteq> Inr True"
  shows "g' = g"
  using assms unfolding make_move_unfold
  by (auto split: option.splits sum.splits if_splits)

lemma make_move_accepted:
  assumes "make_move g s e = Some (Inr True, g')"
  obtains p where "game_state g = UNFINISHED" "board g s = Some (Some p)" "color p = turn g"
    "valid_move p s e (board g) = Inr True"
    "\<And>t. board_get (board g) e = Some t \<Longrightarrow> color t \<noteq> turn g"
    "g' = \<lparr>board = (board g)(e \<mapsto> Some p, s \<mapsto> None),
          game_state =
            (case board_get (board g) e of
               Some (Cuttlefish c) \<Rightarrow> if c = AMETHYST then TANGERINE_WON else AMETHYST_WON
             | _ \<Rightarrow> game_state g),
          turn = (if turn g = TANGERINE then AMETHYST else TANGERINE)\<rparr>"
  using assms unfolding make_move_unfold
  by (auto split: option.splits sum.splits if_splits)

lemma valid_move_distinct:
  assumes "valid_move p s e b = Inr True"
  shows "s \<noteq> e"
proof
  assume "s = e"
  from assms have "\<exists>dx dy. abs_deltas s e = Inr (dx, dy) \<and> (dx \<noteq> 0 \<or> dy \<noteq> 0)"
    by (cases p)
       (auto simp: Emu_valid_move_def Chinchilla_valid_move_def Wombat_valid_move_def
          Cuttlefish_valid_move_def Let_def split: sum.splits if_splits)
  then obtain dx dy where d: "abs_deltas s e = Inr (dx, dy)" and nz: "dx \<noteq> 0 \<or> dy \<noteq> 0"
    by blast
  from d obtain c1 r1 c2 r2 where p: "column_of s = Inr c1" "row_of s = Inr r1"
    "column_of e = Inr c2" "row_of e = Inr r2" "dx = \<bar>c1 - c2\<bar>" "dy = \<bar>r1 - r2\<bar>"
    by (rule abs_deltas_Inr)
  with \<open>s = e\<close> nz show False by auto
qed

lemma well_formed_parse:
  assumes "well_formed sq"
  obtains c r where "column_of sq = Inr c" "row_of sq = Inr r" "0 \<le> c" "c < 7" "1 \<le> r" "r \<le> 7"
    "sq = [COLUMNS ! nat c, ''0123456789'' ! nat r]"
proof -
  from assms obtain a d where sq: "sq = [a, d]" "a \<in> set ''abcdefg''" "d \<in> set ''1234567''"
    by (auto simp: well_formed_def split: list.splits)
  from sq(2) have "\<exists>c. column_of sq = Inr c \<and> 0 \<le> c \<and> c < 7 \<and> COLUMNS ! nat c = a"
    unfolding sq(1) by (auto simp: column_of_def getitem_def COLUMNS_def)
  moreover from sq(3) have "\<exists>r. row_of sq = Inr r \<and> 1 \<le> r \<and> r \<le> 7 \<and> ''0123456789'' ! nat r = d"
    unfolding sq(1) by (auto simp: row_of_def getitem_def int_of_digit_def)
  ultimately show thesis using that sq(1) by blast
qed

lemma well_formed_abs_deltas:
  assumes "well_formed s" "well_formed e"
  shows "\<exists>dx dy. abs_deltas s e = Inr (dx, dy)"
proof -
  from assms(1) obtain c1 r1 where "column_of s = Inr c1" "row_of s = Inr r1"
    by (rule well_formed_parse)
  moreover from assms(2) obtain c2 r2 where "column_of e = Inr c2" "row_of e = Inr r2"
    by (rule well_formed_parse)
  ultimately show ?thesis by (simp add: abs_deltas_def)
qed

lemma well_formed_valid_move:
  assumes "well_formed s" "well_formed e"
  shows "\<exists>ok. valid_move p s e b = Inr ok"
  using well_formed_abs_deltas [OF assms]
  by (cases p)
     (auto simp: Emu_valid_move_def Chinchilla_valid_move_def Wombat_valid_move_def
        Cuttlefish_valid_move_def Let_def)

subsection \<open>Rejection is atomic\<close>

text \<open>
  Claim C2. For every game state and every pair of well-formed coordinates,
  \<^verbatim>\<open>make_move\<close> returns a boolean (it neither raises nor runs forever), and when the
  boolean is \<open>False\<close> the whole object (board, turn and game state) is what it was
  before the call.
\<close>

theorem make_move_well_formed:
  assumes "well_formed start" "well_formed end_sq"
  shows "\<exists>ok self'. make_move self start end_sq = Some (Inr ok, self') \<and> (\<not> ok \<longrightarrow> self' = self)"
proof -
  obtain r self' where mm: "make_move self start end_sq = Some (r, self')"
    using make_move_total by blast
  have "\<exists>ok. r = Inr ok"
  proof (cases r)
    case (Inl err)
    with mm obtain p where "valid_move p start end_sq (board self) = Inl err"
      unfolding make_move_unfold by (auto split: option.splits sum.splits if_splits)
    with well_formed_valid_move [OF assms, of p "board self"] show ?thesis by auto
  next
    case (Inr ok)
    then show ?thesis by simp
  qed
  then obtain ok where ok: "r = Inr ok" ..
  have "self' = self" if "\<not> ok"
    using make_move_rejected [OF mm] that ok by simp
  with mm ok show ?thesis by blast
qed


theorem make_move_well_formed_witness:
  "well_formed ''c7'' \<and> well_formed ''c6'' \<and>
   make_move AnimalGame_init ''c7'' ''c6'' = Some (Inr False, AnimalGame_init)"
proof -
  have wf: "well_formed ''c7''" "well_formed ''c6''" by (simp_all add: well_formed_def)
  from make_move_well_formed [OF wf, of AnimalGame_init]
  obtain ok self' where mm: "make_move AnimalGame_init ''c7'' ''c6'' = Some (Inr ok, self')"
    and same: "\<not> ok \<longrightarrow> self' = AnimalGame_init" by blast
  have "map_option fst (make_move AnimalGame_init ''c7'' ''c6'') = Some (Inr False)"
    by code_simp
  with mm have "\<not> ok" by simp
  with mm same wf show ?thesis by simp
qed

subsection \<open>Capturing the Cuttlefish\<close>

lemma make_moves_finished:
  "game_state g \<noteq> UNFINISHED \<Longrightarrow> make_moves g calls = Some (replicate (length calls) (Inr False), g)"
proof (induction calls)
  case Nil
  show ?case by simp
next
  case (Cons call calls)
  obtain s e where call: "call = (s, e)" by (cases call)
  from Cons.prems have "make_move g s e = Some (Inr False, g)" by (simp add: make_move_def)
  with Cons call show ?case by simp
qed

text \<open>
  Claim C1. When a call returns \<open>True\<close> and the destination held a Cuttlefish, that
  Cuttlefish was of the other colour (moving onto one's own is rejected), the game state
  becomes won by the side that moved, and from then on any sequence of calls returns
  \<open>False\<close> every time and leaves the object, the game state included, untouched.
\<close>

theorem cuttlefish_capture_wins:
  assumes "make_move self start end_sq = Some (Inr True, self')"
    and "board_get (board self) end_sq = Some (Cuttlefish c)"
  shows "c \<noteq> turn self \<and>
         game_state self' = (if turn self = TANGERINE then TANGERINE_WON else AMETHYST_WON) \<and>
         make_moves self' calls = Some (replicate (length calls) (Inr False), self')"
proof -
  from assms(1) obtain p where other: "\<And>t. board_get (board self) end_sq = Some t \<Longrightarrow> color t \<noteq> turn self"
    and self': "self' = \<lparr>board = (board self)(end_sq \<mapsto> Some p, start \<mapsto> None),
          game_state =
            (case board_get (board self) end_sq of
               Some (Cuttlefish c) \<Rightarrow> if c = AMETHYST then TANGERINE_WON else AMETHYST_WON
             | _ \<Rightarrow> game_state self),
          turn = (if turn self = TANGERINE then AMETHYST else TANGERINE)\<rparr>"
    by (rule make_move_accepted) blast
  from other [OF assms(2)] have c: "c \<noteq> turn self" by simp
  have won: "game_state self' = (if turn self = TANGERINE then TANGERINE_WON else AMETHYST_WON)"
    using c by (cases c; cases "turn self") (simp_all add: self' assms(2))
  then have "game_state self' \<noteq> UNFINISHED" by simp
  then have "make_moves self' calls = Some (replicate (length calls) (Inr False), self')"
    by (rule make_moves_finished)
  with c won show ?thesis by simp
qed

theorem cuttlefish_capture_wins_witness:
  "\<exists>rs self self'.
     make_moves AnimalGame_init
       [(''b1'', ''b5''), (''a7'', ''a6''), (''b5'', ''c6''), (''a6'', ''a5'')] = Some (rs, self) \<and>
     make_move self ''c6'' ''d7'' = Some (Inr True, self') \<and>
     board_get (board self) ''d7'' = Some (Cuttlefish AMETHYST) \<and>
     turn self = TANGERINE \<and>
     game_state self' = TANGERINE_WON \<and>
     make_moves self' [(''a5'', ''a4''), (''d1'', ''d2'')] = Some ([Inr False, Inr False], self')"
proof -
  have "map_option
          (\<lambda>(rs, g). (board_get (board g) ''d7'', turn g, map_option fst (make_move g ''c6'' ''d7'')))
          (make_moves AnimalGame_init
             [(''b1'', ''b5''), (''a7'', ''a6''), (''b5'', ''c6''), (''a6'', ''a5'')]) =
        Some (Some (Cuttlefish AMETHYST), TANGERINE, Some (Inr True))"
    by code_simp
  then obtain rs g g' where run: "make_moves AnimalGame_init
        [(''b1'', ''b5''), (''a7'', ''a6''), (''b5'', ''c6''), (''a6'', ''a5'')] = Some (rs, g)"
    and target: "board_get (board g) ''d7'' = Some (Cuttlefish AMETHYST)"
    and turn: "turn g = TANGERINE"
    and mm: "make_move g ''c6'' ''d7'' = Some (Inr True, g')"
    by auto
  from cuttlefish_capture_wins [OF mm target, of "[(''a5'', ''a4''), (''d1'', ''d2'')]"] turn
  have "game_state g' = TANGERINE_WON"
    "make_moves g' [(''a5'', ''a4''), (''d1'', ''d2'')] = Some ([Inr False, Inr False], g')"
    by simp_all
  with run target turn mm show ?thesis by blast
qed

subsection \<open>Applying a move\<close>

text \<open>
  Claim C4. After a call that returns \<open>True\<close> with the destination unoccupied before
  it, the destination holds the piece that stood on the start square, the start square is
  stored as empty, and the turn is the other side's; a call that does not return
  \<open>True\<close> leaves the turn alone.
\<close>

theorem applied_move:
  assumes "make_move self start end_sq = Some (r, self')"
  shows "(r = Inr True \<and> board_get (board self) end_sq = None \<longrightarrow>
            (\<exists>piece. board self start = Some (Some piece) \<and>
                     board self' end_sq = Some (Some piece)) \<and>
            board self' start = Some None \<and>
            turn self' \<noteq> turn self) \<and>
         (r \<noteq> Inr True \<longrightarrow> turn self' = turn self)"
proof (cases "r = Inr True")
  case True
  with assms obtain p where p: "board self start = Some (Some p)"
    "valid_move p start end_sq (board self) = Inr True"
    and self': "self' = \<lparr>board = (board self)(end_sq \<mapsto> Some p, start \<mapsto> None),
          game_state =
            (case board_get (board self) end_sq of
               Some (Cuttlefish c) \<Rightarrow> if c = AMETHYST then TANGERINE_WON else AMETHYST_WON
             | _ \<Rightarrow> game_state self),
          turn = (if turn self = TANGERINE then AMETHYST else TANGERINE)\<rparr>"
    by (auto elim: make_move_accepted)
  from p(2) have "start \<noteq> end_sq" by (rule valid_move_distinct)
  with p(1) True show ?thesis by (simp add: self')
next
  case False
  with make_move_rejected [OF assms] show ?thesis by simp
qed

theorem applied_move_witness:
  "\<exists>self' self''.
     make_move AnimalGame_init ''c1'' ''c2'' = Some (Inr True, self') \<and>
     board_get (board AnimalGame_init) ''c2'' = None \<and>
     board AnimalGame_init ''c1'' = Some (Some (Emu TANGERINE)) \<and>
     board self' ''c2'' = Some (Some (Emu TANGERINE)) \<and>
     board self' ''c1'' = Some None \<and>
     turn self' = AMETHYST \<and>
     make_move self' ''c2'' ''c3'' = Some (Inr False, self'') \<and>
     turn self'' = AMETHYST"
proof -
  have "map_option (\<lambda>(r, g). (r, map_option fst (make_move g ''c2'' ''c3'')))
          (make_move AnimalGame_init ''c1'' ''c2'') = Some (Inr True, Some (Inr False))"
    by code_simp
  then obtain g' g'' where m1: "make_move AnimalGame_init ''c1'' ''c2'' = Some (Inr True, g')"
    and m2: "make_move g' ''c2'' ''c3'' = Some (Inr False, g'')"
    by auto
  have empty: "board_get (board AnimalGame_init) ''c2'' = None"
    and emu: "board AnimalGame_init ''c1'' = Some (Some (Emu TANGERINE))"
    by (simp_all add: board_init board_get_def)
  from applied_move [OF m1] empty emu
  have a: "board g' ''c2'' = Some (Some (Emu TANGERINE))" "board g' ''c1'' = Some None"
    "turn g' \<noteq> turn AnimalGame_init"
    by auto
  then have t: "turn g' = AMETHYST" by (cases "turn g'") (simp_all add: AnimalGame_init_def)
  from applied_move [OF m2] t have "turn g'' = AMETHYST" by simp
  with m1 m2 empty emu a t show ?thesis by blast
qed

subsection \<open>Sliding pieces and jumping pieces\<close>

lemma squares_between_parse:
  assumes "sq \<in> set (squares_between s e)"
  shows "\<exists>dx dy. abs_deltas s e = Inr (dx, dy)"
  using assms unfolding squares_between_def abs_deltas_def
  by (auto split: sum.splits)

lemma abs_deltas_valid_move:
  assumes "abs_deltas s e = Inr d"
  shows "\<exists>ok. valid_move p s e b = Inr ok"
  using assms
  by (cases p; cases d)
     (auto simp: Emu_valid_move_def Chinchilla_valid_move_def Wombat_valid_move_def
        Cuttlefish_valid_move_def Let_def)

text \<open>
  Claim C3. When the piece on the start square is a Chinchilla or an Emu and some square
  strictly between start and end is occupied, the call returns \<open>False\<close> and changes
  nothing, whatever the shape of the move. When the piece is a Wombat or a Cuttlefish, the
  call succeeds as soon as the game is unfinished, the piece is the mover's, the shape is
  accepted and the destination holds no piece of the mover: nothing about the squares in
  between enters the decision, so their occupancy is never a reason for rejection (the
  Wombat's jump of four squares included).
\<close>

theorem path_obstruction:
  "(board self start = Some (Some piece) \<and> (is_Chinchilla piece \<or> is_Emu piece) \<and>
      (\<exists>sq\<in>set (squares_between start end_sq). board_get (board self) sq \<noteq> None)
    \<longrightarrow> make_move self start end_sq = Some (Inr False, self)) \<and>
   (game_state self = UNFINISHED \<and>
      board self start = Some (Some piece) \<and> (is_Wombat piece \<or> is_Cuttlefish piece) \<and>
      color piece = turn self \<and>
      valid_move piece start end_sq (board self) = Inr True \<and>
      (\<forall>t. board_get (board self) end_sq = Some t \<longrightarrow> color t \<noteq> turn self)
    \<longrightarrow> (\<exists>self'. make_move self start end_sq = Some (Inr True, self')))"
proof (intro conjI impI)
  assume a: "board self start = Some (Some piece) \<and> (is_Chinchilla piece \<or> is_Emu piece) \<and>
      (\<exists>sq\<in>set (squares_between start end_sq). board_get (board self) sq \<noteq> None)"
  then obtain d where "abs_deltas start end_sq = Inr d"
    using squares_between_parse by blast
  then obtain ok where "valid_move piece start end_sq (board self) = Inr ok"
    using abs_deltas_valid_move by blast
  with a show "make_move self start end_sq = Some (Inr False, self)"
    unfolding make_move_unfold by (auto split: option.split)
next
  assume a: "game_state self = UNFINISHED \<and>
      board self start = Some (Some piece) \<and> (is_Wombat piece \<or> is_Cuttlefish piece) \<and>
      color piece = turn self \<and>
      valid_move piece start end_sq (board self) = Inr True \<and>
      (\<forall>t. board_get (board self) end_sq = Some t \<longrightarrow> color t \<noteq> turn self)"
  then have "\<not> (is_Emu piece \<or> is_Chinchilla piece)" by (cases piece) auto
  with a show "\<exists>self'. make_move self start end_sq = Some (Inr True, self')"
    unfolding make_move_unfold by (auto split: option.split)
qed

theorem path_obstruction_witness:
  "make_move (AnimalGame_init\<lparr>board := (board AnimalGame_init)(''c2'' \<mapsto> Some (Chinchilla TANGERINE))\<rparr>)
     ''c1'' ''c3'' =
   Some (Inr False, AnimalGame_init\<lparr>board := (board AnimalGame_init)(''c2'' \<mapsto> Some (Chinchilla TANGERINE))\<rparr>) \<and>
   squares_between ''c1'' ''c3'' = [''c2''] \<and>
   squares_between ''b1'' ''b5'' = [''b2'', ''b3'', ''b4''] \<and>
   (\<exists>self'. make_move (AnimalGame_init\<lparr>board := (board AnimalGame_init)(''b3'' \<mapsto> Some (Emu AMETHYST))\<rparr>)
     ''b1'' ''b5'' = Some (Inr True, self'))"
proof -
  let ?blocked = "AnimalGame_init\<lparr>board := (board AnimalGame_init)(''c2'' \<mapsto> Some (Chinchilla TANGERINE))\<rparr>"
  let ?jump = "AnimalGame_init\<lparr>board := (board AnimalGame_init)(''b3'' \<mapsto> Some (Emu AMETHYST))\<rparr>"
  have between: "squares_between ''c1'' ''c3'' = [''c2'']"
    "squares_between ''b1'' ''b5'' = [''b2'', ''b3'', ''b4'']"
    by code_simp+
  have emu: "board ?blocked ''c1'' = Some (Some (Emu TANGERINE))" "is_Emu (Emu TANGERINE)"
    by (simp_all add: board_init)
  have occ: "\<exists>sq\<in>set (squares_between ''c1'' ''c3''). board_get (board ?blocked) sq \<noteq> None"
    unfolding between by (simp add: board_get_def)
  from path_obstruction [of ?blocked "''c1''" "Emu TANGERINE" "''c3''"] emu occ
  have first: "make_move ?blocked ''c1'' ''c3'' = Some (Inr False, ?blocked)" by blast
  have wombat: "board ?jump ''b1'' = Some (Some (Wombat TANGERINE))" "is_Wombat (Wombat TANGERINE)"
    by (simp_all add: board_init)
  have mover: "color (Wombat TANGERINE) = turn ?jump" "game_state ?jump = UNFINISHED"
    by (simp_all add: AnimalGame_init_def)
  have shape: "valid_move (Wombat TANGERINE) ''b1'' ''b5'' (board ?jump) = Inr True"
    by (simp add: Wombat_valid_move_def abs_deltas_def column_of_def row_of_def getitem_def
        int_of_digit_def COLUMNS_def)
  have target: "\<forall>t. board_get (board ?jump) ''b5'' = Some t \<longrightarrow> color t \<noteq> turn ?jump"
    by (simp add: board_init board_get_def)
  from path_obstruction [of ?jump "''b1''" "Wombat TANGERINE" "''b5''"] wombat mover shape target
  have second: "\<exists>self'. make_move ?jump ''b1'' ''b5'' = Some (Inr True, self')" by blast
  from first between second show ?thesis by blast
qed

subsection \<open>The Emu's shape\<close>

text \<open>
  Claim C7. Where the columns and rows of start and end can be read, the Emu's
  \<^verbatim>\<open>valid_move\<close> returns \<open>True\<close> exactly when, for the absolute column and row deltas,
  the column delta is 0 and the row delta is 1 to 3, or the row delta is 0 and the column
  delta is 1 to 3, or both deltas are 1; it returns the same for any two boards.
\<close>

theorem Emu_valid_move_iff:
  assumes "column_of start = Inr c1" "row_of start = Inr r1"
    and "column_of end_sq = Inr c2" "row_of end_sq = Inr r2"
  shows "Emu_valid_move start end_sq b =
           Inr ((\<bar>c1 - c2\<bar> = 0 \<and> 1 \<le> \<bar>r1 - r2\<bar> \<and> \<bar>r1 - r2\<bar> \<le> 3) \<or>
                (\<bar>r1 - r2\<bar> = 0 \<and> 1 \<le> \<bar>c1 - c2\<bar> \<and> \<bar>c1 - c2\<bar> \<le> 3) \<or>
                (\<bar>c1 - c2\<bar> = 1 \<and> \<bar>r1 - r2\<bar> = 1)) \<and>
         Emu_valid_move start end_sq b = Emu_valid_move start end_sq b'"
  using assms by (simp add: Emu_valid_move_def abs_deltas_def)

lemma parse_c1_c4:
  "column_of ''c1'' = Inr 2" "row_of ''c1'' = Inr 1" "column_of ''c4'' = Inr 2" "row_of ''c4'' = Inr 4"
  by (simp_all add: column_of_def row_of_def getitem_def int_of_digit_def COLUMNS_def)

theorem Emu_valid_move_iff_witness:
  "column_of ''c1'' = Inr 2 \<and> row_of ''c1'' = Inr 1 \<and>
   column_of ''c4'' = Inr 2 \<and> row_of ''c4'' = Inr 4 \<and>
   Emu_valid_move ''c1'' ''c4'' Map.empty = Inr True \<and>
   Emu_valid_move ''c1'' ''c4'' Map.empty = Emu_valid_move ''c1'' ''c4'' (board AnimalGame_init)"
proof -
  note emu = Emu_valid_move_iff [OF parse_c1_c4, of Map.empty "board AnimalGame_init"]
  from emu [THEN conjunct1] have "Emu_valid_move ''c1'' ''c4'' Map.empty = Inr True"
    by simp
  with emu [THEN conjunct2] parse_c1_c4 show ?thesis by blast
qed

subsection \<open>Termination of the path walk\<close>

lemma walk_a1_c2: "path_clear Map.empty ''a1'' ''c2'' = Some (Inl IndexError)"
  by code_simp

lemma shape_a1_c2:
  "Chinchilla_valid_move ''a1'' ''c2'' b = Inr False" "Emu_valid_move ''a1'' ''c2'' b = Inr False"
  by (simp_all add: Chinchilla_valid_move_def Emu_valid_move_def abs_deltas_def column_of_def
      row_of_def getitem_def int_of_digit_def COLUMNS_def)

text \<open>
  Claim C8. Whenever a Chinchilla's or an Emu's shape predicate has accepted a move, the
  loop of \<^verbatim>\<open>_path_clear\<close> for that move terminates and returns a boolean, on any board;
  hence every call of \<^verbatim>\<open>make_move\<close> terminates. For the deltas 2 and 1 (from \<open>a1\<close> to
  \<open>c2\<close>) the walk does not arrive at the end square: on an empty board it runs past
  column \<open>g\<close> and stops there with an \<^verbatim>\<open>IndexError\<close>; both sliding shape predicates
  reject that move, so \<^verbatim>\<open>make_move\<close> never starts such a walk.
\<close>

theorem path_clear_terminates:
  "((is_Chinchilla piece \<or> is_Emu piece) \<and> valid_move piece start end_sq b = Inr True
      \<longrightarrow> (\<exists>clear. path_clear b' start end_sq = Some (Inr clear))) \<and>
   (\<exists>r self'. make_move self start end_sq = Some (r, self')) \<and>
   path_clear Map.empty ''a1'' ''c2'' = Some (Inl IndexError) \<and>
   Chinchilla_valid_move ''a1'' ''c2'' b = Inr False \<and>
   Emu_valid_move ''a1'' ''c2'' b = Inr False"
proof -
  have "\<exists>clear. path_clear b' start end_sq = Some (Inr clear)"
    if "(is_Chinchilla piece \<or> is_Emu piece) \<and> valid_move piece start end_sq b = Inr True"
    using sliding_path_clear [of piece start end_sq b b'] that by blast
  with make_move_total [of self start end_sq] walk_a1_c2 shape_a1_c2 [of b]
  show ?thesis by blast
qed

theorem path_clear_terminates_witness:
  "is_Emu (Emu TANGERINE) \<and>
   valid_move (Emu TANGERINE) ''c1'' ''c4'' (board AnimalGame_init) = Inr True \<and>
   path_clear (board AnimalGame_init) ''c1'' ''c4'' = Some (Inr True)"
proof -
  have shape: "valid_move (Emu TANGERINE) ''c1'' ''c4'' (board AnimalGame_init) = Inr True"
    by (simp add: Emu_valid_move_def abs_deltas_def parse_c1_c4)
  with path_clear_terminates [of "Emu TANGERINE" "''c1''" "''c4''" "board AnimalGame_init"
      "board AnimalGame_init"]
  obtain clear where c: "path_clear (board AnimalGame_init) ''c1'' ''c4'' = Some (Inr clear)"
    by auto
  have "path_clear (board AnimalGame_init) ''c1'' ''c4'' \<noteq> Some (Inr False)"
    by code_simp
  with c have "clear" by (cases clear) simp_all
  with c shape show ?thesis by simp
qed

subsection \<open>Coordinates outside the board\<close>

lemma list_index_Inr_mem: "list_index xs x = Inr i \<Longrightarrow> x \<in> set xs"
  by (induction xs arbitrary: i) (auto split: if_splits sum.splits)

text \<open>
  Claim C10, as amended. A start key that is absent from the board makes \<^verbatim>\<open>make_move\<close>
  return \<open>False\<close>. While the game is \<open>UNFINISHED\<close>, when a non-empty start key holds a
  piece of the side to move and the first character of the end square is not a column
  letter, the call raises \<^verbatim>\<open>ValueError\<close> (and changes nothing).
\<close>

theorem malformed_coordinates:
  "(board self start = None \<longrightarrow> make_move self start end_sq = Some (Inr False, self)) \<and>
   (game_state self = UNFINISHED \<and> board self start = Some (Some piece) \<and>
      color piece = turn self \<and> start \<noteq> [] \<and> c \<notin> set COLUMNS
    \<longrightarrow> make_move self start (c # rest) = Some (Inl ValueError, self))"
proof (intro conjI impI)
  assume "board self start = None"
  then show "make_move self start end_sq = Some (Inr False, self)"
    by (simp add: make_move_def)
next
  assume a: "game_state self = UNFINISHED \<and> board self start = Some (Some piece) \<and>
      color piece = turn self \<and> start \<noteq> [] \<and> c \<notin> set COLUMNS"
  have e: "column_of (c # rest) = Inl ValueError"
  proof (cases "list_index COLUMNS c")
    case (Inl err)
    with list_index_Inl [OF Inl] show ?thesis by (simp add: column_of_def getitem_def)
  next
    case (Inr i)
    from list_index_Inr_mem [OF Inr] a have False by simp
    then show ?thesis ..
  qed
  from a obtain s0 srest where s: "start = s0 # srest" by (cases start) auto
  have "column_of start = Inl ValueError \<or> (\<exists>i. column_of start = Inr i)"
  proof (cases "list_index COLUMNS s0")
    case (Inl err)
    with list_index_Inl [OF Inl] show ?thesis by (simp add: column_of_def getitem_def s)
  next
    case (Inr i)
    then show ?thesis by (simp add: column_of_def getitem_def s)
  qed
  with e have "abs_deltas start (c # rest) = Inl ValueError"
    by (auto simp: abs_deltas_def)
  then have "valid_move piece start (c # rest) (board self) = Inl ValueError"
    by (cases piece)
       (simp_all add: Chinchilla_valid_move_def Wombat_valid_move_def Emu_valid_move_def
          Cuttlefish_valid_move_def)
  with a show "make_move self start (c # rest) = Some (Inl ValueError, self)"
    by (simp add: make_move_def)
qed

theorem malformed_coordinates_witness:
  "board AnimalGame_init ''z9'' = None \<and>
   make_move AnimalGame_init ''z9'' ''a1'' = Some (Inr False, AnimalGame_init) \<and>
   board AnimalGame_init ''a1'' = Some (Some (Chinchilla TANGERINE)) \<and>
   make_move AnimalGame_init ''a1'' ''z1'' = Some (Inl ValueError, AnimalGame_init)"
proof -
  have absent: "board AnimalGame_init ''z9'' = None"
    and present: "board AnimalGame_init ''a1'' = Some (Some (Chinchilla TANGERINE))"
    by (simp_all add: board_init)
  have mover: "game_state AnimalGame_init = UNFINISHED"
    "color (Chinchilla TANGERINE) = turn AnimalGame_init"
    by (simp_all add: AnimalGame_init_def)
  have z: "CHR ''z'' \<notin> set COLUMNS" by (simp add: COLUMNS_def)
  from malformed_coordinates [of AnimalGame_init "''z9''" "''a1''"] absent
  have "make_move AnimalGame_init ''z9'' ''a1'' = Some (Inr False, AnimalGame_init)" by blast
  moreover
  from malformed_coordinates [of AnimalGame_init "''a1''" _ "Chinchilla TANGERINE" "CHR ''z''" "''1''"]
    present mover z
  have "make_move AnimalGame_init ''a1'' ''z1'' = Some (Inl ValueError, AnimalGame_init)" by simp
  ultimately show ?thesis using absent present by simp
qed

text \<open>
  Claim C10 as first stated does not hold once the game is over: after TANGERINE's
  Wombat has captured the Cuttlefish on \<open>d7\<close>, it is AMETHYST's turn, \<open>a5\<close> holds an
  AMETHYST Chinchilla, and \<^verbatim>\<open>make_move('a5', 'z1')\<close> returns \<open>False\<close> instead of raising.
\<close>

theorem finished_game_no_ValueError:
  "case make_moves AnimalGame_init
          [(''b1'', ''b5''), (''a7'', ''a6''), (''b5'', ''c6''), (''a6'', ''a5''), (''c6'', ''d7'')] of
     None \<Rightarrow> False
   | Some (rs, self) \<Rightarrow>
       rs = [Inr True, Inr True, Inr True, Inr True, Inr True] \<and>
       game_state self = TANGERINE_WON \<and>
       turn self = AMETHYST \<and>
       board self ''a5'' = Some (Some (Chinchilla AMETHYST)) \<and>
       CHR ''z'' \<notin> set COLUMNS \<and>
       map_option fst (make_move self ''a5'' ''z1'') = Some (Inr False)"
  by code_simp

subsection \<open>The Cuttlefish while the game lasts\<close>

lemma keys_step:
  assumes "well_formed s" "well_formed e" "make_move g s e = Some (r, g')"
    and "\<forall>k\<in>dom (board g). well_formed k"
  shows "\<forall>k\<in>dom (board g'). well_formed k"
proof (cases "r = Inr True")
  case True
  with assms(3) obtain p where "g' = \<lparr>board = (board g)(e \<mapsto> Some p, s \<mapsto> None),
          game_state =
            (case board_get (board g) e of
               Some (Cuttlefish c) \<Rightarrow> if c = AMETHYST then TANGERINE_WON else AMETHYST_WON
             | _ \<Rightarrow> game_state g),
          turn = (if turn g = TANGERINE then AMETHYST else TANGERINE)\<rparr>"
    by (auto elim: make_move_accepted)
  with assms(1,2,4) show ?thesis by auto
next
  case False
  with make_move_rejected [OF assms(3)] assms(4) show ?thesis by simp
qed

lemma royal_step:
  assumes mm: "make_move g s e = Some (r, g')"
    and inv: "game_state g = UNFINISHED \<longrightarrow> (\<forall>c. \<exists>!k. board g k = Some (Some (Cuttlefish c)))"
  shows "game_state g' = UNFINISHED \<longrightarrow> (\<forall>c. \<exists>!k. board g' k = Some (Some (Cuttlefish c)))"
proof (cases "r = Inr True")
  case False
  with make_move_rejected [OF mm] inv show ?thesis by simp
next
  case True
  with mm obtain p where unf: "game_state g = UNFINISHED" and p: "board g s = Some (Some p)"
    and shape: "valid_move p s e (board g) = Inr True"
    and g': "g' = \<lparr>board = (board g)(e \<mapsto> Some p, s \<mapsto> None),
          game_state =
            (case board_get (board g) e of
               Some (Cuttlefish c) \<Rightarrow> if c = AMETHYST then TANGERINE_WON else AMETHYST_WON
             | _ \<Rightarrow> game_state g),
          turn = (if turn g = TANGERINE then AMETHYST else TANGERINE)\<rparr>"
    by (auto elim: make_move_accepted)
  from shape have ne: "s \<noteq> e" by (rule valid_move_distinct)
  show ?thesis
  proof (intro impI allI)
    fix c
    assume unf': "game_state g' = UNFINISHED"
    have target: "board g e \<noteq> Some (Some (Cuttlefish c))"
    proof
      assume "board g e = Some (Some (Cuttlefish c))"
      then have "board_get (board g) e = Some (Cuttlefish c)" by (simp add: board_get_def)
      with unf' show False by (simp add: g' split: if_splits)
    qed
    from inv unf obtain k where k: "board g k = Some (Some (Cuttlefish c))"
      and uniq: "\<And>k'. board g k' = Some (Some (Cuttlefish c)) \<Longrightarrow> k' = k"
      by blast
    from k target have ke: "k \<noteq> e" by auto
    show "\<exists>!k. board g' k = Some (Some (Cuttlefish c))"
    proof (cases "k = s")
      case True
      with k p have pc: "p = Cuttlefish c" by simp
      show ?thesis
      proof (rule ex1I [of _ e])
        show "board g' e = Some (Some (Cuttlefish c))" using ne pc by (simp add: g')
      next
        fix k' assume "board g' k' = Some (Some (Cuttlefish c))"
        then show "k' = e" using uniq [of k'] True ke by (auto simp: g' split: if_splits)
      qed
    next
      case False
      have pc: "p \<noteq> Cuttlefish c" using uniq [of s] p False by auto
      show ?thesis
      proof (rule ex1I [of _ k])
        show "board g' k = Some (Some (Cuttlefish c))" using False ke k by (simp add: g')
      next
        fix k' assume "board g' k' = Some (Some (Cuttlefish c))"
        then show "k' = k" using uniq [of k'] pc by (auto simp: g' split: if_splits)
      qed
    qed
  qed
qed

lemma royal_leaves:
  assumes mm: "make_move g s e = Some (r, g')"
    and k: "board g k = Some (Some (Cuttlefish c))"
    and gone: "\<forall>k'. board g' k' \<noteq> Some (Some (Cuttlefish c))"
  shows "r = Inr True \<and> board_get (board g) e = Some (Cuttlefish c) \<and>
         game_state g = UNFINISHED \<and>
         game_state g' = (if c = AMETHYST then TANGERINE_WON else AMETHYST_WON)"
proof -
  have r: "r = Inr True"
  proof (rule ccontr)
    assume "r \<noteq> Inr True"
    with make_move_rejected [OF mm] k gone show False by simp
  qed
  with mm obtain p where unf: "game_state g = UNFINISHED" and p: "board g s = Some (Some p)"
    and shape: "valid_move p s e (board g) = Inr True"
    and g': "g' = \<lparr>board = (board g)(e \<mapsto> Some p, s \<mapsto> None),
          game_state =
            (case board_get (board g) e of
               Some (Cuttlefish c) \<Rightarrow> if c = AMETHYST then TANGERINE_WON else AMETHYST_WON
             | _ \<Rightarrow> game_state g),
          turn = (if turn g = TANGERINE then AMETHYST else TANGERINE)\<rparr>"
    by (auto elim: make_move_accepted)
  from shape have ne: "s \<noteq> e" by (rule valid_move_distinct)
  from gone have "board g' e \<noteq> Some (Some (Cuttlefish c))" by blast
  then have at_e: "p \<noteq> Cuttlefish c" using ne by (simp add: g')
  with k p have ks: "k \<noteq> s" by auto
  from gone have "board g' k \<noteq> Some (Some (Cuttlefish c))" by blast
  with k ks have "k = e" by (simp add: g' split: if_splits)
  with k have "board_get (board g) e = Some (Cuttlefish c)" by (simp add: board_get_def)
  with r unf show ?thesis by (simp add: g')
qed

lemma init_keys: "\<forall>k\<in>dom (board AnimalGame_init). well_formed k"
  unfolding board_init by (auto simp: well_formed_def)

lemma init_royal: "\<exists>!k. board AnimalGame_init k = Some (Some (Cuttlefish c))"
proof (cases c)
  case TANGERINE
  show ?thesis
    by (rule ex1I [of _ "''d1''"]) (auto simp: board_init TANGERINE split: if_splits)
next
  case AMETHYST
  show ?thesis
    by (rule ex1I [of _ "''d7''"]) (auto simp: board_init AMETHYST split: if_splits)
qed

lemma make_moves_invariants:
  assumes "well_formed_calls calls" "make_moves g calls = Some (rs, g')"
    and "\<forall>k\<in>dom (board g). well_formed k"
    and "game_state g = UNFINISHED \<longrightarrow> (\<forall>c. \<exists>!k. board g k = Some (Some (Cuttlefish c)))"
  shows "(\<forall>k\<in>dom (board g'). well_formed k) \<and>
         (game_state g' = UNFINISHED \<longrightarrow> (\<forall>c. \<exists>!k. board g' k = Some (Some (Cuttlefish c))))"
  using assms
proof (induction calls arbitrary: g rs)
  case Nil
  then show ?case by simp
next
  case (Cons call calls)
  obtain s e where call: "call = (s, e)" by (cases call)
  from Cons.prems(1) call have wf: "well_formed s" "well_formed e" "well_formed_calls calls"
    by (simp_all add: well_formed_calls_def)
  from Cons.prems(2) call obtain r g1 rs1 where mm: "make_move g s e = Some (r, g1)"
    and rest: "make_moves g1 calls = Some (rs1, g')"
    by (auto split: option.splits prod.splits)
  from keys_step [OF wf(1,2) mm Cons.prems(3)] royal_step [OF mm Cons.prems(4)]
  show ?case by (intro Cons.IH [OF wf(3) rest])
qed

text \<open>
  Claim C6. In every state reached from a new game by calls with well-formed
  coordinates: every key of the board is a well-formed square, and the board, being a
  dictionary, holds at most one piece under a key, hence at most one piece per square;
  while the game is \<open>UNFINISHED\<close> each colour has its Cuttlefish on exactly one square;
  and a call after which a colour's Cuttlefish is no longer on the board is a successful
  move onto the square of that Cuttlefish, made in an unfinished game, which leaves the
  game won by the other colour.
\<close>

theorem reachable_invariants:
  assumes "well_formed_calls calls"
    and "make_moves AnimalGame_init calls = Some (rs, self)"
  shows "(\<forall>k\<in>dom (board self). well_formed k) \<and>
         (\<forall>sq p q. board_get (board self) sq = Some p \<and> board_get (board self) sq = Some q
            \<longrightarrow> p = q) \<and>
         (game_state self = UNFINISHED \<longrightarrow>
            (\<forall>c. \<exists>!k. board self k = Some (Some (Cuttlefish c)))) \<and>
         (\<forall>start end_sq r self' c.
            make_move self start end_sq = Some (r, self') \<and>
            (\<exists>k. board self k = Some (Some (Cuttlefish c))) \<and>
            (\<forall>k. board self' k \<noteq> Some (Some (Cuttlefish c)))
            \<longrightarrow> r = Inr True \<and> board_get (board self) end_sq = Some (Cuttlefish c) \<and>
                game_state self = UNFINISHED \<and>
                game_state self' = (if c = AMETHYST then TANGERINE_WON else AMETHYST_WON))"
proof -
  have start: "game_state AnimalGame_init = UNFINISHED \<longrightarrow>
      (\<forall>c. \<exists>!k. board AnimalGame_init k = Some (Some (Cuttlefish c)))"
    using init_royal by blast
  from make_moves_invariants [OF assms init_keys start]
  have inv: "\<forall>k\<in>dom (board self). well_formed k"
    "game_state self = UNFINISHED \<longrightarrow> (\<forall>c. \<exists>!k. board self k = Some (Some (Cuttlefish c)))"
    by blast+
  have one: "\<forall>sq p q. board_get (board self) sq = Some p \<and> board_get (board self) sq = Some q
      \<longrightarrow> p = q"
    by auto
  have leaves: "\<forall>start end_sq r self' c.
      make_move self start end_sq = Some (r, self') \<and>
      (\<exists>k. board self k = Some (Some (Cuttlefish c))) \<and>
      (\<forall>k. board self' k \<noteq> Some (Some (Cuttlefish c)))
      \<longrightarrow> r = Inr True \<and> board_get (board self) end_sq = Some (Cuttlefish c) \<and>
          game_state self = UNFINISHED \<and>
          game_state self' = (if c = AMETHYST then TANGERINE_WON else AMETHYST_WON)"
    using royal_leaves by blast
  from inv one leaves show ?thesis by (intro conjI)
qed

theorem reachable_invariants_witness:
  "\<exists>rs self self'.
     well_formed_calls [(''b1'', ''b5''), (''a7'', ''a6''), (''b5'', ''c6''), (''a6'', ''a5'')] \<and>
     make_moves AnimalGame_init
       [(''b1'', ''b5''), (''a7'', ''a6''), (''b5'', ''c6''), (''a6'', ''a5'')] = Some (rs, self) \<and>
     game_state self = UNFINISHED \<and>
     well_formed ''c6'' \<and> ''c6'' \<in> dom (board self) \<and>
     board self ''d7'' = Some (Some (Cuttlefish AMETHYST)) \<and>
     (\<exists>!k. board self k = Some (Some (Cuttlefish AMETHYST))) \<and>
     make_move self ''c6'' ''d7'' = Some (Inr True, self') \<and>
     (\<forall>k. board self' k \<noteq> Some (Some (Cuttlefish AMETHYST))) \<and>
     game_state self' = TANGERINE_WON"
proof -
  let ?calls = "[(''b1'', ''b5''), (''a7'', ''a6''), (''b5'', ''c6''), (''a6'', ''a5'')]"
  have wf: "well_formed_calls ?calls"
    by (simp add: well_formed_calls_def well_formed_def)
  have "map_option
          (\<lambda>(rs, g). (game_state g, board g ''c6'', board g ''d7'',
                       map_option fst (make_move g ''c6'' ''d7'')))
          (make_moves AnimalGame_init ?calls) =
        Some (UNFINISHED, Some (Some (Wombat TANGERINE)), Some (Some (Cuttlefish AMETHYST)),
              Some (Inr True))"
    by code_simp
  then obtain rs g g' where run: "make_moves AnimalGame_init ?calls = Some (rs, g)"
    and unf: "game_state g = UNFINISHED"
    and c6: "board g ''c6'' = Some (Some (Wombat TANGERINE))"
    and d7: "board g ''d7'' = Some (Some (Cuttlefish AMETHYST))"
    and mm: "make_move g ''c6'' ''d7'' = Some (Inr True, g')"
    by auto
  note inv = reachable_invariants [OF wf run]
  note keys = inv [THEN conjunct1]
  note royal = inv [THEN conjunct2, THEN conjunct2, THEN conjunct1]
  note leaves = inv [THEN conjunct2, THEN conjunct2, THEN conjunct2]
  from royal unf have uniq: "\<exists>!k. board g k = Some (Some (Cuttlefish AMETHYST))" by simp
  from c6 have dom: "''c6'' \<in> dom (board g)" by (simp add: dom_def)
  with keys have key: "well_formed ''c6''" by (rule bspec)
  from mm c6 have g': "board g' = (board g)(''d7'' \<mapsto> Some (Wombat TANGERINE), ''c6'' \<mapsto> None)"
    by (auto elim: make_move_accepted)
  have gone: "\<forall>k. board g' k \<noteq> Some (Some (Cuttlefish AMETHYST))"
  proof (intro allI notI)
    fix k assume "board g' k = Some (Some (Cuttlefish AMETHYST))"
    then have "k \<noteq> ''d7''" "board g k = Some (Some (Cuttlefish AMETHYST))"
      by (auto simp: g' split: if_splits)
    with uniq d7 show False by (auto simp: Ex1_def)
  qed
  from d7 have "\<exists>k. board g k = Some (Some (Cuttlefish AMETHYST))" ..
  with leaves [rule_format, of "''c6''" "''d7''" "Inr True" g' AMETHYST] mm gone
  have won: "game_state g' = TANGERINE_WON" by simp
  show ?thesis
    by (intro exI [of _ rs] exI [of _ g] exI [of _ g'] conjI wf run unf key dom d7 uniq mm gone won)
qed

end
